theory Spec2Isabelle
  imports Main "HOL-Library.Word"
begin

text \<open>
  The state container of the todo application: the two slices \<open>uiSlice\<close> and
  \<open>todosSlice\<close>, the store that combines them, the two filtered views of the screen and
  the add handler of the input card. The sources hold two versions of the screen; the
  model follows the later one, whose \<open>todosSlice\<close> has \<open>clearPending\<close> and
  \<open>clearCompleted\<close>. The earlier one has the same reducers without these two, and the
  same guard written inline in the two handlers of the input card.
\<close>

section \<open>JavaScript strings\<close>

text \<open>
  A JavaScript string is a sequence of UTF-16 code units. The only string operations
  the program uses are strict equality (\<open>===\<close>, equality of the code-unit sequences),
  truthiness (a string is falsy exactly when it is empty) and \<open>String.prototype.trim\<close>.
\<close>

type_synonym jsstring = "16 word list"

text \<open>
  \<open>trim\<close> is a built-in of the language: it removes the leading and the trailing run of
  white space and line terminators. All of those code points lie in the basic
  multilingual plane, so the test is on single code units.
\<close>

definition isWhiteSpace :: "16 word \<Rightarrow> bool" where
  "isWhiteSpace c \<longleftrightarrow>
     c = 0x0009 \<or> c = 0x000B \<or> c = 0x000C \<or> c = 0x0020 \<or> c = 0x00A0 \<or> c = 0xFEFF \<or>
     c = 0x1680 \<or> (0x2000 \<le> c \<and> c \<le> 0x200A) \<or> c = 0x202F \<or> c = 0x205F \<or> c = 0x3000"

definition isLineTerminator :: "16 word \<Rightarrow> bool" where
  "isLineTerminator c \<longleftrightarrow> c = 0x000A \<or> c = 0x000D \<or> c = 0x2028 \<or> c = 0x2029"

definition isTrimmed :: "16 word \<Rightarrow> bool" where
  "isTrimmed c \<longleftrightarrow> isWhiteSpace c \<or> isLineTerminator c"

definition js_trim :: "jsstring \<Rightarrow> jsstring" where
  "js_trim s = rev (dropWhile isTrimmed (rev (dropWhile isTrimmed s)))"

section \<open>State\<close>

text \<open>
  A task record as \<open>prepare\<close> of \<open>addTodo\<close> builds it:
  \<open>{ id: nanoid(), title, done: false, createdAt: Date.now() }\<close>.
\<close>

record todo =
  todo_id :: jsstring
  title :: jsstring
  "done" :: bool
  createdAt :: int

text \<open>\<open>uiSlice\<close>: \<open>initialState: { darkMode: false, showBanner: true }\<close>.\<close>

record ui_state =
  darkMode :: bool
  showBanner :: bool

text \<open>\<open>todosSlice\<close>: \<open>initialState: { items: [] }\<close>.\<close>

record todos_state =
  items :: "todo list"

text \<open>The store's state, one field per slice: \<open>reducer: { ui: ..., todos: ... }\<close>.\<close>

record root_state =
  ui :: ui_state
  todos :: todos_state

definition ui_initialState :: ui_state where
  "ui_initialState = \<lparr>darkMode = False, showBanner = True\<rparr>"

definition todos_initialState :: todos_state where
  "todos_initialState = \<lparr>items = []\<rparr>"

definition initialState :: root_state where
  "initialState = \<lparr>ui = ui_initialState, todos = todos_initialState\<rparr>"

section \<open>The UI slice\<close>

text \<open>\<open>toggleDarkMode(state) { state.darkMode = !state.darkMode; }\<close>\<close>

definition toggleDarkMode :: "ui_state \<Rightarrow> ui_state" where
  "toggleDarkMode state = state\<lparr>darkMode := \<not> darkMode state\<rparr>"

text \<open>\<open>dismissBanner(state) { state.showBanner = false; }\<close>\<close>

definition dismissBanner :: "ui_state \<Rightarrow> ui_state" where
  "dismissBanner state = state\<lparr>showBanner := False\<rparr>"

section \<open>The todos slice\<close>

text \<open>
  \<open>prepare(title)\<close> of \<open>addTodo\<close>. The results of \<open>nanoid()\<close> and of \<open>Date.now()\<close> come
  from outside the program and are parameters here.
\<close>

definition addTodo_prepare :: "jsstring \<Rightarrow> jsstring \<Rightarrow> int \<Rightarrow> todo" where
  "addTodo_prepare ttl nanoid now =
     \<lparr>todo_id = nanoid, title = ttl, done = False, createdAt = now\<rparr>"

text \<open>\<open>reducer(state, action) { state.items.unshift(action.payload); }\<close>\<close>

definition addTodo_reducer :: "todos_state \<Rightarrow> todo \<Rightarrow> todos_state" where
  "addTodo_reducer state payload = state\<lparr>items := payload # items state\<rparr>"

text \<open>
  \<open>Array.prototype.find\<close> returns the first element that satisfies the predicate, or
  \<open>undefined\<close>. The reducer then assigns to a field of the element found, which changes
  the element where it stands in the array: the model finds its index.
\<close>

fun find_index :: "('a \<Rightarrow> bool) \<Rightarrow> 'a list \<Rightarrow> nat option" where
  "find_index p [] = None"
| "find_index p (x # xs) =
     (if p x then Some 0 else map_option Suc (find_index p xs))"

text \<open>
  \<open>const t = state.items.find((x) => x.id === action.payload);
    if (t) t.done = !t.done;\<close>
\<close>

definition toggleTodo :: "todos_state \<Rightarrow> jsstring \<Rightarrow> todos_state" where
  "toggleTodo state payload =
     (case find_index (\<lambda>x. todo_id x = payload) (items state) of
        None \<Rightarrow> state
      | Some i \<Rightarrow>
          state\<lparr>items := (items state)[i := (items state ! i)\<lparr>done := \<not> done (items state ! i)\<rparr>]\<rparr>)"

text \<open>\<open>state.items = state.items.filter((x) => x.id !== action.payload);\<close>\<close>

definition removeTodo :: "todos_state \<Rightarrow> jsstring \<Rightarrow> todos_state" where
  "removeTodo state payload =
     state\<lparr>items := filter (\<lambda>x. todo_id x \<noteq> payload) (items state)\<rparr>"

text \<open>\<open>state.items = [];\<close>\<close>

definition clearTodos :: "todos_state \<Rightarrow> todos_state" where
  "clearTodos state = state\<lparr>items := []\<rparr>"

text \<open>\<open>state.items = state.items.filter((item) => item.done);\<close>\<close>

definition clearPending :: "todos_state \<Rightarrow> todos_state" where
  "clearPending state = state\<lparr>items := filter (\<lambda>item. done item) (items state)\<rparr>"

text \<open>\<open>state.items = state.items.filter((item) => !item.done);\<close>\<close>

definition clearCompleted :: "todos_state \<Rightarrow> todos_state" where
  "clearCompleted state = state\<lparr>items := filter (\<lambda>item. \<not> done item) (items state)\<rparr>"

section \<open>The store\<close>

text \<open>
  One constructor for each action type the two slices define (\<open>ui/toggleDarkMode\<close>,
  \<open>ui/dismissBanner\<close>, \<open>todos/addTodo\<close>, ...), with its payload.
\<close>

datatype action =
    Ui_toggleDarkMode
  | Ui_dismissBanner
  | Todos_addTodo todo
  | Todos_toggleTodo jsstring
  | Todos_removeTodo jsstring
  | Todos_clearTodos
  | Todos_clearPending
  | Todos_clearCompleted

text \<open>The action creator \<open>addTodo(title)\<close> runs \<open>prepare\<close>.\<close>

definition addTodo :: "jsstring \<Rightarrow> jsstring \<Rightarrow> int \<Rightarrow> action" where
  "addTodo ttl nanoid now = Todos_addTodo (addTodo_prepare ttl nanoid now)"

text \<open>
  A slice's reducer runs the case reducer of an action of its own and returns its
  state as it is for every other action.
\<close>

fun uiSlice_reducer :: "ui_state \<Rightarrow> action \<Rightarrow> ui_state" where
  "uiSlice_reducer state Ui_toggleDarkMode = toggleDarkMode state"
| "uiSlice_reducer state Ui_dismissBanner = dismissBanner state"
| "uiSlice_reducer state _ = state"

fun todosSlice_reducer :: "todos_state \<Rightarrow> action \<Rightarrow> todos_state" where
  "todosSlice_reducer state (Todos_addTodo payload) = addTodo_reducer state payload"
| "todosSlice_reducer state (Todos_toggleTodo payload) = toggleTodo state payload"
| "todosSlice_reducer state (Todos_removeTodo payload) = removeTodo state payload"
| "todosSlice_reducer state Todos_clearTodos = clearTodos state"
| "todosSlice_reducer state Todos_clearPending = clearPending state"
| "todosSlice_reducer state Todos_clearCompleted = clearCompleted state"
| "todosSlice_reducer state _ = state"

text \<open>
  \<open>configureStore({ reducer: { ui: uiSlice.reducer, todos: todosSlice.reducer } })\<close>:
  every action goes to both slice reducers, each on its own part of the state.
\<close>

definition dispatch :: "root_state \<Rightarrow> action \<Rightarrow> root_state" where
  "dispatch s a = \<lparr>ui = uiSlice_reducer (ui s) a, todos = todosSlice_reducer (todos s) a\<rparr>"

text \<open>A sequence of dispatches, first action first.\<close>

fun run :: "root_state \<Rightarrow> action list \<Rightarrow> root_state" where
  "run s [] = s"
| "run s (a # as) = run (dispatch s a) as"

section \<open>The views\<close>

text \<open>\<open>useSelector((s) => s.todos.items.filter((item) => !item.done))\<close>\<close>

definition pendingView :: "root_state \<Rightarrow> todo list" where
  "pendingView s = filter (\<lambda>item. \<not> done item) (items (todos s))"

text \<open>\<open>useSelector((s) => s.todos.items.filter((item) => item.done))\<close>\<close>

definition completedView :: "root_state \<Rightarrow> todo list" where
  "completedView s = filter (\<lambda>item. done item) (items (todos s))"

section \<open>The add handler of the input card\<close>

text \<open>
  \<open>const handleAdd = () => {
      if (!title.trim()) return;
      dispatch(addTodo(title.trim()));
      setTitle("");
      Haptics.impactAsync(...);
    };\<close>
  The handler works on the text of the input field and on the store; the model returns
  both. The haptic feedback touches neither.
\<close>

definition handleAdd :: "jsstring \<Rightarrow> jsstring \<Rightarrow> int \<Rightarrow> root_state \<Rightarrow> jsstring \<times> root_state" where
  "handleAdd ttl nanoid now s =
     (if js_trim ttl = [] then (ttl, s)
      else ([], dispatch s (addTodo (js_trim ttl) nanoid now)))"

section \<open>Sequences of intents\<close>

text \<open>
  The action creators are the only source of actions. An \<open>addTodo\<close> action carries
  what \<open>prepare\<close> built, and its id is the result of \<open>nanoid()\<close>, a generator of
  collision-free ids: the id is not one of a record of the collection. Every other
  action can be dispatched in every state.
\<close>

fun admissible :: "root_state \<Rightarrow> action \<Rightarrow> bool" where
  "admissible s (Todos_addTodo payload) =
     (payload = addTodo_prepare (title payload) (todo_id payload) (createdAt payload)
      \<and> todo_id payload \<notin> todo_id ` set (items (todos s)))"
| "admissible s _ = True"

fun admissible_run :: "root_state \<Rightarrow> action list \<Rightarrow> bool" where
  "admissible_run s [] = True"
| "admissible_run s (a # as) = (admissible s a \<and> admissible_run (dispatch s a) as)"

text \<open>
  One call \<open>addTodo(title)\<close> with the values \<open>nanoid()\<close> and \<open>Date.now()\<close> return
  during it: the action it makes, and the record that action carries.
\<close>

definition addTodo_call :: "jsstring \<times> jsstring \<times> int \<Rightarrow> action" where
  "addTodo_call c = (case c of (ttl, nanoid, now) \<Rightarrow> addTodo ttl nanoid now)"

definition created :: "jsstring \<times> jsstring \<times> int \<Rightarrow> todo" where
  "created c = (case c of (ttl, nanoid, now) \<Rightarrow> addTodo_prepare ttl nanoid now)"

section \<open>Trimming\<close>

lemma js_trim_empty_iff: "js_trim s = [] \<longleftrightarrow> (\<forall>c \<in> set s. isTrimmed c)"
proof
  assume e: "js_trim s = []"
  let ?ys = "dropWhile isTrimmed s"
  from e have all: "\<forall>c \<in> set ?ys. isTrimmed c"
    by (simp add: js_trim_def dropWhile_eq_Nil_conv)
  have "?ys = []"
  proof (rule ccontr)
    assume ne: "?ys \<noteq> []"
    then have "\<not> isTrimmed (hd ?ys)" by (rule hd_dropWhile)
    moreover from ne have "hd ?ys \<in> set ?ys" by simp
    ultimately show False using all by blast
  qed
  then show "\<forall>c \<in> set s. isTrimmed c"
    by (simp add: dropWhile_eq_Nil_conv)
next
  assume "\<forall>c \<in> set s. isTrimmed c"
  then have d: "dropWhile isTrimmed s = []"
    by (simp add: dropWhile_eq_Nil_conv)
  show "js_trim s = []"
    unfolding js_trim_def d by simp
qed

text \<open>
  Claim C1, as amended. The check of the title is the guard of \<open>handleAdd\<close>: with a
  title that is empty or holds white space and line terminators only, \<open>handleAdd\<close>
  dispatches nothing, so the store (and the text of the input field) stay as they are.
\<close>

theorem handleAdd_blank_title:
  assumes "\<forall>c \<in> set ttl. isWhiteSpace c \<or> isLineTerminator c"
  shows "handleAdd ttl nanoid now s = (ttl, s)"
proof -
  from assms have "js_trim ttl = []"
    by (simp add: js_trim_empty_iff isTrimmed_def)
  then show ?thesis by (simp add: handleAdd_def)
qed

theorem handleAdd_blank_title_witness:
  "list_all (\<lambda>c. isWhiteSpace c \<or> isLineTerminator c) [0x20, 0x09, 0x20]
   \<and> handleAdd [0x20, 0x09, 0x20] [0x61] 0 initialState = ([0x20, 0x09, 0x20], initialState)"
proof -
  have h: "\<forall>c \<in> set [0x20, 0x09, 0x20 :: 16 word]. isWhiteSpace c \<or> isLineTerminator c"
    by (simp add: isWhiteSpace_def)
  from handleAdd_blank_title [OF h] h show ?thesis
    by (simp only: list_all_iff)
qed

text \<open>
  The action creator and the reducer of \<open>addTodo\<close> do not look at the title: with the
  empty title, and with a title of three spaces, the collection grows by one record.
\<close>

theorem addTodo_blank_title_counterexample:
  "js_trim [] = [] \<and> js_trim [0x20, 0x20, 0x20] = []
   \<and> items (todos (dispatch initialState (addTodo [] [0x61] 0))) \<noteq> items (todos initialState)
   \<and> length (items (todos (dispatch initialState (addTodo [0x20, 0x20, 0x20] [0x61] 0)))) = 1
   \<and> length (items (todos initialState)) = 0"
  by (simp add: js_trim_def isTrimmed_def isWhiteSpace_def isLineTerminator_def dispatch_def
      addTodo_def addTodo_reducer_def initialState_def todos_initialState_def)

section \<open>Toggling and removing\<close>

lemma find_index_None: "find_index p xs = None \<longleftrightarrow> (\<forall>x \<in> set xs. \<not> p x)"
  by (induction xs) auto

lemma find_index_Some:
  "find_index p xs = Some i \<Longrightarrow> i < length xs \<and> p (xs ! i) \<and> (\<forall>j<i. \<not> p (xs ! j))"
proof (induction xs arbitrary: i)
  case Nil
  then show ?case by simp
next
  case (Cons x xs)
  show ?case
  proof (cases "p x")
    case True
    with Cons.prems show ?thesis by simp
  next
    case False
    with Cons.prems obtain k where k: "find_index p xs = Some k" "i = Suc k"
      by auto
    from Cons.IH [OF k(1)] False k(2) show ?thesis
      by (auto simp: less_Suc_eq_0_disj)
  qed
qed

lemma find_index_map: "find_index (\<lambda>x. q (f x)) xs = find_index q (map f xs)"
  by (induction xs) simp_all

lemma map_todo_id_update:
  "map todo_id (xs[i := (xs ! i)\<lparr>done := b\<rparr>]) = map todo_id xs"
  by (cases "i < length xs") (simp_all add: map_update list_update_same_conv list_update_beyond)

lemma toggleTodo_ids: "map todo_id (items (toggleTodo st k)) = map todo_id (items st)"
  by (simp add: toggleTodo_def map_todo_id_update split: option.split)

lemma toggleTodo_twice: "toggleTodo (toggleTodo st k) k = st"
proof (cases "find_index (\<lambda>x. todo_id x = k) (items st)")
  case None
  then show ?thesis by (simp add: toggleTodo_def)
next
  case (Some i)
  let ?ys = "(items st)[i := (items st ! i)\<lparr>done := \<not> done (items st ! i)\<rparr>]"
  from find_index_Some [OF Some] have i: "i < length (items st)" by simp
  have "find_index (\<lambda>x. todo_id x = k) ?ys = find_index (\<lambda>v. v = k) (map todo_id ?ys)"
    by (rule find_index_map)
  also have "\<dots> = find_index (\<lambda>v. v = k) (map todo_id (items st))"
    by (simp only: map_todo_id_update)
  also have "\<dots> = Some i"
    using Some by (simp add: find_index_map [symmetric])
  finally have again: "find_index (\<lambda>x. todo_id x = k) ?ys = Some i" .
  have first: "toggleTodo st k = st\<lparr>items := ?ys\<rparr>"
    using Some by (simp add: toggleTodo_def)
  have "toggleTodo (st\<lparr>items := ?ys\<rparr>) k = st"
    unfolding toggleTodo_def using again i by (simp add: list_update_same_conv)
  with first show ?thesis by simp
qed

text \<open>
  Claim C3. When the collection holds a record with the id given, \<open>toggleTodo\<close>
  negates the \<open>done\<close> flag of the record \<open>find\<close> returns, the first one with that id:
  the collection keeps its length, the record keeps its position, its id, its title
  and its creation time, and the record at every other position is the one that was
  there.
\<close>

theorem toggleTodo_flips_found:
  assumes "k \<in> todo_id ` set (items st)"
  shows "\<exists>i < length (items st).
           todo_id (items st ! i) = k
           \<and> (\<forall>j < i. todo_id (items st ! j) \<noteq> k)
           \<and> length (items (toggleTodo st k)) = length (items st)
           \<and> done (items (toggleTodo st k) ! i) = (\<not> done (items st ! i))
           \<and> todo_id (items (toggleTodo st k) ! i) = todo_id (items st ! i)
           \<and> title (items (toggleTodo st k) ! i) = title (items st ! i)
           \<and> createdAt (items (toggleTodo st k) ! i) = createdAt (items st ! i)
           \<and> (\<forall>j < length (items st). j \<noteq> i \<longrightarrow> items (toggleTodo st k) ! j = items st ! j)"
proof -
  from assms have "find_index (\<lambda>x. todo_id x = k) (items st) \<noteq> None"
    by (auto simp: find_index_None)
  then obtain i where f: "find_index (\<lambda>x. todo_id x = k) (items st) = Some i"
    by blast
  from find_index_Some [OF f]
  have i: "i < length (items st)" and hit: "todo_id (items st ! i) = k"
    and before: "\<forall>j < i. todo_id (items st ! j) \<noteq> k"
    by simp_all
  from f have r: "items (toggleTodo st k)
      = (items st)[i := (items st ! i)\<lparr>done := \<not> done (items st ! i)\<rparr>]"
    by (simp add: toggleTodo_def)
  from i hit before show ?thesis
    unfolding r by (intro exI [of _ i]) simp
qed

theorem toggleTodo_flips_found_witness:
  "[0x62] \<in> todo_id ` set (items \<lparr>items =
       [\<lparr>todo_id = [0x61], title = [0x77], done = False, createdAt = 2\<rparr>,
        \<lparr>todo_id = [0x62], title = [0x6D], done = False, createdAt = 1\<rparr>]\<rparr>)
   \<and> items (toggleTodo \<lparr>items =
       [\<lparr>todo_id = [0x61], title = [0x77], done = False, createdAt = 2\<rparr>,
        \<lparr>todo_id = [0x62], title = [0x6D], done = False, createdAt = 1\<rparr>]\<rparr> [0x62])
     = [\<lparr>todo_id = [0x61], title = [0x77], done = False, createdAt = 2\<rparr>,
        \<lparr>todo_id = [0x62], title = [0x6D], done = True, createdAt = 1\<rparr>]"
  using toggleTodo_flips_found [of "[0x62]" "\<lparr>items =
       [\<lparr>todo_id = [0x61], title = [0x77], done = False, createdAt = 2\<rparr>,
        \<lparr>todo_id = [0x62], title = [0x6D], done = False, createdAt = 1\<rparr>]\<rparr>"]
  by (simp add: toggleTodo_def)

text \<open>
  Claim C4. Toggling twice with the id of a record of the collection gives back the
  collection, so the \<open>done\<close> flag of that record has the value it had.
\<close>

theorem toggleTodo_involution:
  assumes "i < length (items st)"
  shows "toggleTodo (toggleTodo st (todo_id (items st ! i))) (todo_id (items st ! i)) = st
         \<and> done (items (toggleTodo (toggleTodo st (todo_id (items st ! i)))
                   (todo_id (items st ! i))) ! i) = done (items st ! i)"
  by (simp add: toggleTodo_twice)

theorem toggleTodo_involution_witness:
  "0 < length (items \<lparr>items = [\<lparr>todo_id = [0x61], title = [0x77], done = False, createdAt = 2\<rparr>]\<rparr>)
   \<and> toggleTodo (toggleTodo
        \<lparr>items = [\<lparr>todo_id = [0x61], title = [0x77], done = False, createdAt = 2\<rparr>]\<rparr> [0x61]) [0x61]
     = \<lparr>items = [\<lparr>todo_id = [0x61], title = [0x77], done = False, createdAt = 2\<rparr>]\<rparr>"
  using toggleTodo_involution [of 0
      "\<lparr>items = [\<lparr>todo_id = [0x61], title = [0x77], done = False, createdAt = 2\<rparr>]\<rparr>"]
  by simp

text \<open>
  Claim C5. With an id that no record of the collection has, dispatching \<open>toggleTodo\<close>
  or \<open>removeTodo\<close> returns the state it was given, field for field.
\<close>

theorem unknown_id_is_noop:
  assumes "k \<notin> todo_id ` set (items (todos s))"
  shows "dispatch s (Todos_toggleTodo k) = s \<and> dispatch s (Todos_removeTodo k) = s"
proof -
  from assms have "find_index (\<lambda>x. todo_id x = k) (items (todos s)) = None"
    by (auto simp: find_index_None)
  then have t: "toggleTodo (todos s) k = todos s"
    by (simp add: toggleTodo_def)
  from assms have "filter (\<lambda>x. todo_id x \<noteq> k) (items (todos s)) = items (todos s)"
    by (auto simp: filter_id_conv)
  then have r: "removeTodo (todos s) k = todos s"
    by (simp add: removeTodo_def)
  from t r show ?thesis by (simp add: dispatch_def)
qed

theorem unknown_id_is_noop_witness:
  "[0x7A] \<notin> todo_id ` set (items (todos (dispatch initialState (addTodo [0x77] [0x61] 2))))
   \<and> dispatch (dispatch initialState (addTodo [0x77] [0x61] 2)) (Todos_toggleTodo [0x7A])
       = dispatch initialState (addTodo [0x77] [0x61] 2)
   \<and> dispatch (dispatch initialState (addTodo [0x77] [0x61] 2)) (Todos_removeTodo [0x7A])
       = dispatch initialState (addTodo [0x77] [0x61] 2)"
proof -
  have h: "[0x7A] \<notin> todo_id ` set (items (todos (dispatch initialState (addTodo [0x77] [0x61] 2))))"
    by (simp add: dispatch_def addTodo_def addTodo_prepare_def addTodo_reducer_def
        initialState_def todos_initialState_def)
  from unknown_id_is_noop [OF h] h show ?thesis by blast
qed

section \<open>Adding\<close>

lemma run_append: "run s (as @ bs) = run (run s as) bs"
  by (induction as arbitrary: s) simp_all

lemma run_addTodo_calls:
  "items (todos (run s (map addTodo_call calls))) = rev (map created calls) @ items (todos s)"
proof (induction calls arbitrary: s)
  case Nil
  show ?case by simp
next
  case (Cons c calls)
  have "items (todos (dispatch s (addTodo_call c))) = created c # items (todos s)"
    by (cases c) (simp add: dispatch_def addTodo_call_def created_def addTodo_def addTodo_reducer_def)
  with Cons.IH [of "dispatch s (addTodo_call c)"] show ?case by simp
qed

text \<open>
  Claim C6. After a sequence of \<open>addTodo\<close> calls, whatever their titles (non-empty ones
  among them), the collection has as many records more as there were calls; and after
  each call of the sequence the record that call created, with \<open>done\<close> false, is at
  index 0.
\<close>

theorem addTodo_sequence:
  "length (items (todos (run s (map addTodo_call calls)))) = length (items (todos s)) + length calls
   \<and> (\<forall>n < length calls.
        items (todos (run s (map addTodo_call (take (Suc n) calls)))) ! 0 = created (calls ! n)
        \<and> \<not> done (items (todos (run s (map addTodo_call (take (Suc n) calls)))) ! 0))"
proof (intro conjI allI impI)
  show "length (items (todos (run s (map addTodo_call calls)))) = length (items (todos s)) + length calls"
    by (simp add: run_addTodo_calls)
next
  fix n assume n: "n < length calls"
  have "items (todos (run s (map addTodo_call (take (Suc n) calls))))
          = rev (map created (take (Suc n) calls)) @ items (todos s)"
    by (rule run_addTodo_calls)
  also from n have "\<dots> = created (calls ! n) # (rev (map created (take n calls)) @ items (todos s))"
    by (simp add: take_Suc_conv_app_nth)
  finally show first: "items (todos (run s (map addTodo_call (take (Suc n) calls)))) ! 0 = created (calls ! n)"
    by simp
  have "\<not> done (created (calls ! n))"
    by (cases "calls ! n") (simp add: created_def addTodo_prepare_def)
  with first show "\<not> done (items (todos (run s (map addTodo_call (take (Suc n) calls)))) ! 0)"
    by simp
qed

theorem addTodo_sequence_witness:
  "1 < length ([([0x6D], [0x61], 1), ([0x77], [0x62], 2)] :: (jsstring \<times> jsstring \<times> int) list)
   \<and> length (items (todos (run initialState
         (map addTodo_call [([0x6D], [0x61], 1), ([0x77], [0x62], 2)])))) = 2
   \<and> items (todos (run initialState
         (map addTodo_call (take (Suc 1) [([0x6D], [0x61], 1), ([0x77], [0x62], 2)])))) ! 0
       = \<lparr>todo_id = [0x62], title = [0x77], done = False, createdAt = 2\<rparr>"
proof -
  let ?calls = "[([0x6D], [0x61], 1), ([0x77], [0x62], 2)] :: (jsstring \<times> jsstring \<times> int) list"
  have h: "1 < length ?calls" by simp
  note seq = addTodo_sequence [of initialState ?calls]
  from seq have "length (items (todos (run initialState (map addTodo_call ?calls))))
      = length (items (todos initialState)) + length ?calls"
    by (rule conjunct1)
  then have size: "length (items (todos (run initialState (map addTodo_call ?calls)))) = 2"
    by (simp add: initialState_def todos_initialState_def)
  from seq h
  have "items (todos (run initialState (map addTodo_call (take (Suc 1) ?calls)))) ! 0
      = created (?calls ! 1)"
    by blast
  then have front: "items (todos (run initialState (map addTodo_call (take (Suc 1) ?calls)))) ! 0
      = \<lparr>todo_id = [0x62], title = [0x77], done = False, createdAt = 2\<rparr>"
    by (simp add: created_def addTodo_prepare_def)
  from h size front show ?thesis by blast
qed

section \<open>The two views\<close>

lemma ids_dispatch_distinct:
  assumes "distinct (map todo_id (items (todos s)))" and "admissible s a"
  shows "distinct (map todo_id (items (todos (dispatch s a))))"
proof (cases a)
  case (Todos_addTodo p)
  with assms show ?thesis by (simp add: dispatch_def addTodo_reducer_def)
next
  case (Todos_toggleTodo k)
  with assms show ?thesis by (simp add: dispatch_def toggleTodo_ids)
next
  case (Todos_removeTodo k)
  with assms show ?thesis by (simp add: dispatch_def removeTodo_def distinct_map_filter)
next
  case Todos_clearPending
  with assms show ?thesis by (simp add: dispatch_def clearPending_def distinct_map_filter)
next
  case Todos_clearCompleted
  with assms show ?thesis by (simp add: dispatch_def clearCompleted_def distinct_map_filter)
qed (use assms in \<open>simp_all add: dispatch_def clearTodos_def\<close>)

lemma ids_run_distinct:
  "distinct (map todo_id (items (todos s))) \<Longrightarrow> admissible_run s as
   \<Longrightarrow> distinct (map todo_id (items (todos (run s as))))"
proof (induction as arbitrary: s)
  case Nil
  then show ?case by simp
next
  case (Cons a as)
  from Cons.prems have "distinct (map todo_id (items (todos (dispatch s a))))"
    by (simp add: ids_dispatch_distinct)
  with Cons.prems Cons.IH show ?case by simp
qed

lemma views_ids_disjoint:
  assumes "distinct (map todo_id xs)"
  shows "todo_id ` set (filter (\<lambda>item. \<not> done item) xs)
         \<inter> todo_id ` set (filter (\<lambda>item. done item) xs) = {}"
proof -
  from assms have inj: "inj_on todo_id (set xs)" by (simp add: distinct_map)
  show ?thesis
  proof (rule ccontr)
    assume "\<not> ?thesis"
    then obtain x y where xy: "x \<in> set xs" "\<not> done x" "y \<in> set xs" "done y" "todo_id x = todo_id y"
      by auto
    with inj have "x = y" by (auto dest: inj_onD)
    with xy show False by simp
  qed
qed

lemma views_ids_cover:
  "todo_id ` set (filter (\<lambda>item. \<not> done item) xs) \<union> todo_id ` set (filter (\<lambda>item. done item) xs)
   = todo_id ` set xs"
  by auto

text \<open>
  Claim C2. In every state the store reaches from its initial state, the ids of the
  pending view and the ids of the completed view have no id in common, and together
  they are the ids of the collection.
\<close>

theorem views_partition_ids:
  assumes "admissible_run initialState as"
  shows "todo_id ` set (pendingView (run initialState as))
           \<inter> todo_id ` set (completedView (run initialState as)) = {}
         \<and> todo_id ` set (pendingView (run initialState as))
           \<union> todo_id ` set (completedView (run initialState as))
           = todo_id ` set (items (todos (run initialState as)))"
proof -
  have "distinct (map todo_id (items (todos initialState)))"
    by (simp add: initialState_def todos_initialState_def)
  with assms have "distinct (map todo_id (items (todos (run initialState as))))"
    by (simp add: ids_run_distinct)
  then have "todo_id ` set (pendingView (run initialState as))
           \<inter> todo_id ` set (completedView (run initialState as)) = {}"
    unfolding pendingView_def completedView_def by (rule views_ids_disjoint)
  moreover have "todo_id ` set (pendingView (run initialState as))
           \<union> todo_id ` set (completedView (run initialState as))
           = todo_id ` set (items (todos (run initialState as)))"
    unfolding pendingView_def completedView_def by (rule views_ids_cover)
  ultimately show ?thesis by (rule conjI)
qed

theorem views_partition_ids_witness:
  "admissible_run initialState
     [addTodo [0x6D] [0x61] 1, addTodo [0x77] [0x62] 2, Todos_toggleTodo [0x61]]
   \<and> todo_id ` set (pendingView (run initialState
        [addTodo [0x6D] [0x61] 1, addTodo [0x77] [0x62] 2, Todos_toggleTodo [0x61]])) = {[0x62]}
   \<and> todo_id ` set (completedView (run initialState
        [addTodo [0x6D] [0x61] 1, addTodo [0x77] [0x62] 2, Todos_toggleTodo [0x61]])) = {[0x61]}"
  using views_partition_ids [of
      "[addTodo [0x6D] [0x61] 1, addTodo [0x77] [0x62] 2, Todos_toggleTodo [0x61]]"]
  by (simp add: addTodo_def addTodo_prepare_def dispatch_def addTodo_reducer_def toggleTodo_def
      initialState_def todos_initialState_def pendingView_def completedView_def)

section \<open>Clearing a group\<close>

lemma filter_done_not_done: "filter (\<lambda>item. \<not> done item) (filter (\<lambda>item. done item) xs) = []"
  by (induction xs) simp_all

lemma filter_not_done_done: "filter (\<lambda>item. done item) (filter (\<lambda>item. \<not> done item) xs) = []"
  by (induction xs) simp_all

text \<open>
  Claim C7. \<open>clearPending\<close> keeps exactly the records whose \<open>done\<close> flag is set, in the
  order they had; afterwards the pending view is empty and the completed view is the
  one of the state before.
\<close>

theorem clearPending_keeps_completed:
  "items (todos (dispatch s Todos_clearPending)) = filter (\<lambda>item. done item) (items (todos s))
   \<and> pendingView (dispatch s Todos_clearPending) = []
   \<and> completedView (dispatch s Todos_clearPending) = completedView s"
  by (simp add: dispatch_def clearPending_def pendingView_def completedView_def
      filter_done_not_done)

text \<open>
  Claim C10. Clearing the pending group and the completed group, in either order,
  leaves the empty collection: the same state as \<open>clearTodos\<close> gives.
\<close>

theorem clear_groups_is_clearTodos:
  "dispatch (dispatch s Todos_clearPending) Todos_clearCompleted = dispatch s Todos_clearTodos
   \<and> dispatch (dispatch s Todos_clearCompleted) Todos_clearPending = dispatch s Todos_clearTodos
   \<and> items (todos (dispatch s Todos_clearTodos)) = []"
  by (simp add: dispatch_def clearPending_def clearCompleted_def clearTodos_def
      filter_done_not_done filter_not_done_done)

section \<open>The UI slice and the frame of each slice\<close>

lemma showBanner_dispatch: "showBanner (ui (dispatch s a)) \<Longrightarrow> showBanner (ui s)"
  by (cases a) (simp_all add: dispatch_def toggleDarkMode_def dismissBanner_def)

lemma showBanner_run: "showBanner (ui (run s as)) \<Longrightarrow> showBanner (ui s)"
  by (induction as arbitrary: s) (auto dest: showBanner_dispatch)

text \<open>
  Claim C8. \<open>showBanner\<close> is true in the initial state; no action takes it from false
  to true, so once it is false in a sequence of actions it is false ever after;
  \<open>dismissBanner\<close> makes it false whatever it was, and a second \<open>dismissBanner\<close>
  changes nothing.
\<close>

theorem showBanner_only_falls:
  "showBanner (ui initialState)
   \<and> (showBanner (ui (dispatch s a)) \<longrightarrow> showBanner (ui s))
   \<and> (\<not> showBanner (ui (run initialState as)) \<longrightarrow> \<not> showBanner (ui (run initialState (as @ bs))))
   \<and> \<not> showBanner (ui (dispatch s Ui_dismissBanner))
   \<and> dispatch (dispatch s Ui_dismissBanner) Ui_dismissBanner = dispatch s Ui_dismissBanner"
proof (intro conjI impI)
  show "showBanner (ui initialState)"
    by (simp add: initialState_def ui_initialState_def)
  show "showBanner (ui s)" if "showBanner (ui (dispatch s a))"
    using that by (rule showBanner_dispatch)
  show "\<not> showBanner (ui (run initialState (as @ bs)))" if "\<not> showBanner (ui (run initialState as))"
    using that showBanner_run [of "run initialState as" bs] by (auto simp: run_append)
  show "\<not> showBanner (ui (dispatch s Ui_dismissBanner))"
    by (simp add: dispatch_def dismissBanner_def)
  show "dispatch (dispatch s Ui_dismissBanner) Ui_dismissBanner = dispatch s Ui_dismissBanner"
    by (simp add: dispatch_def dismissBanner_def)
qed

theorem showBanner_only_falls_witness:
  "showBanner (ui (dispatch initialState Ui_toggleDarkMode))
   \<and> showBanner (ui initialState)
   \<and> \<not> showBanner (ui (run initialState [Ui_toggleDarkMode, Ui_dismissBanner]))
   \<and> \<not> showBanner (ui (run initialState
          ([Ui_toggleDarkMode, Ui_dismissBanner] @ [Ui_toggleDarkMode, Todos_clearTodos])))"
proof -
  have h1: "showBanner (ui (dispatch initialState Ui_toggleDarkMode))"
    by (simp add: dispatch_def toggleDarkMode_def initialState_def ui_initialState_def)
  have h2: "\<not> showBanner (ui (run initialState [Ui_toggleDarkMode, Ui_dismissBanner]))"
    by (simp add: dispatch_def toggleDarkMode_def dismissBanner_def)
  from showBanner_only_falls [of initialState Ui_toggleDarkMode
      "[Ui_toggleDarkMode, Ui_dismissBanner]" "[Ui_toggleDarkMode, Todos_clearTodos]"] h1 h2
  show ?thesis by blast
qed

text \<open>
  Claim C9. The two actions of the UI slice leave the todos slice as it is, and each of
  the six actions of the todos slice leaves the UI slice (\<open>darkMode\<close> and
  \<open>showBanner\<close>) as it is.
\<close>

theorem slices_are_independent:
  "todos (dispatch s Ui_toggleDarkMode) = todos s
   \<and> todos (dispatch s Ui_dismissBanner) = todos s
   \<and> ui (dispatch s (Todos_addTodo payload)) = ui s
   \<and> ui (dispatch s (Todos_toggleTodo k)) = ui s
   \<and> ui (dispatch s (Todos_removeTodo k)) = ui s
   \<and> ui (dispatch s Todos_clearTodos) = ui s
   \<and> ui (dispatch s Todos_clearPending) = ui s
   \<and> ui (dispatch s Todos_clearCompleted) = ui s"
  by (simp add: dispatch_def)

end
